theory Spec2Isabelle
  imports Complex_Main "HOL-Library.List_Lexorder" "HOL-Library.Char_ord"
begin

section \<open>Strings, character classes and rounding\<close>

text \<open>
  A Python \<open>str\<close> is a sequence of code points. The model writes a code point below 256 as
  the \<open>char\<close> with that code, so a \<open>string\<close> here is a text over Latin-1 and
  \<open>length\<close> counts code points as \<open>len\<close> does. File names are strings too, ordered
  by code point, shorter prefix first, as Python compares them.

  \<open>is_space\<close> is the class \<open>\s\<close> of \<open>re\<close> (and of \<open>str.strip\<close>) on these code
  points, \<open>is_word\<close> is \<open>\w\<close>, \<open>char_lower\<close> is \<open>str.lower\<close> on one code point.
\<close>

definition is_space :: "char \<Rightarrow> bool" where
  "is_space c = (of_char c \<in> {9, 10, 11, 12, 13, 28, 29, 30, 31, 32, 133, 160 :: nat})"

definition is_word :: "char \<Rightarrow> bool" where
  "is_word c =
     (let n = of_char c :: nat
      in (48 \<le> n \<and> n \<le> 57) \<or> (65 \<le> n \<and> n \<le> 90) \<or> n = 95 \<or> (97 \<le> n \<and> n \<le> 122)
         \<or> n = 170 \<or> n = 178 \<or> n = 179 \<or> n = 181 \<or> n = 185 \<or> n = 186
         \<or> (188 \<le> n \<and> n \<le> 190) \<or> (192 \<le> n \<and> n \<le> 214)
         \<or> (216 \<le> n \<and> n \<le> 246) \<or> (248 \<le> n \<and> n \<le> 255))"

definition char_lower :: "char \<Rightarrow> char" where
  "char_lower c =
     (let n = of_char c :: nat
      in if (65 \<le> n \<and> n \<le> 90) \<or> (192 \<le> n \<and> n \<le> 214) \<or> (216 \<le> n \<and> n \<le> 222)
         then char_of (n + 32) else c)"

definition lower :: "string \<Rightarrow> string" where
  "lower s = map char_lower s"

text \<open>
  Under \<open>re.IGNORECASE\<close> a pattern letter of \<open>a..z\<close> matches itself and its capital, and
  no other code point below 256; the other pattern characters used here match themselves.
\<close>

definition ascii_lower :: "char \<Rightarrow> char" where
  "ascii_lower c =
     (let n = of_char c :: nat in if 65 \<le> n \<and> n \<le> 90 then char_of (n + 32) else c)"

text \<open>\<open>str.strip()\<close>: whitespace removed at both ends.\<close>

definition strip :: "string \<Rightarrow> string" where
  "strip s = rev (dropWhile is_space (rev (dropWhile is_space s)))"

text \<open>
  Python's floats are idealised as exact rationals. \<open>py_round nd x\<close> is \<open>round(x, nd)\<close>:
  the nearest multiple of \<open>10 ^ -nd\<close>, a tie going to the even one.
\<close>

definition py_round :: "nat \<Rightarrow> rat \<Rightarrow> rat" where
  "py_round nd x =
     (let m = 10 ^ nd; y = x * m; f = \<lfloor>y\<rfloor>; d = y - of_int f
      in if d < 1 / 2 then of_int f / m
         else if 1 / 2 < d then of_int (f + 1) / m
         else if even f then of_int f / m else of_int (f + 1) / m)"

section \<open>The regular expressions of both stages\<close>

text \<open>
  \<open>re.findall(r"\b\w+\b", text)\<close>: the maximal runs of word characters, left to right.
  \<open>cur\<close> is the run being read.
\<close>

fun find_words_from :: "string \<Rightarrow> string \<Rightarrow> string list" where
  "find_words_from cur [] = (if cur = [] then [] else [cur])"
| "find_words_from cur (c # cs) =
     (if is_word c then find_words_from (cur @ [c]) cs
      else (if cur = [] then [] else [cur]) @ find_words_from [] cs)"

definition find_words :: "string \<Rightarrow> string list" where
  "find_words text = find_words_from [] text"

text \<open>
  \<open>re.split\<close> on a pattern \<open>[...]+\<close> over a character class \<open>P\<close>: the text is cut at
  every maximal run of \<open>P\<close>; the pieces before, between and after the runs are returned,
  empty ones included.
\<close>

function split_runs_from :: "(char \<Rightarrow> bool) \<Rightarrow> string \<Rightarrow> string \<Rightarrow> string list" where
  "split_runs_from P cur [] = [cur]"
| "split_runs_from P cur (c # cs) =
     (if P c then cur # split_runs_from P [] (dropWhile P cs)
      else split_runs_from P (cur @ [c]) cs)"
  by pat_completeness auto
termination
  by (relation "measure (\<lambda>(P, cur, s). length s)")
     (auto simp: less_Suc_eq_le length_dropWhile_le)

definition is_sentence_end :: "char \<Rightarrow> bool" where
  "is_sentence_end c = (c = CHR ''.'' \<or> c = CHR ''!'' \<or> c = CHR ''?'')"

text \<open>\<open>[s for s in re.split(r"[.!?]+", text) if s.strip()]\<close>, in both stages.\<close>

definition split_sentences :: "string \<Rightarrow> string list" where
  "split_sentences text = filter (\<lambda>s. strip s \<noteq> []) (split_runs_from is_sentence_end [] text)"

text \<open>
  \<open>re.split(r"(?:\s{2,}|\n{2,})", text)\<close>: a match starts where two whitespace characters
  follow each other and takes the whole run (a newline is whitespace, so the second
  alternative never decides).
\<close>

function split_paragraphs_from :: "string \<Rightarrow> string \<Rightarrow> string list" where
  "split_paragraphs_from cur [] = [cur]"
| "split_paragraphs_from cur [c] = [cur @ [c]]"
| "split_paragraphs_from cur (c # d # cs) =
     (if is_space c \<and> is_space d then cur # split_paragraphs_from [] (dropWhile is_space cs)
      else split_paragraphs_from (cur @ [c]) (d # cs))"
  by pat_completeness auto
termination
  by (relation "measure (\<lambda>(cur, s). length s)")
     (auto simp: less_Suc_eq_le intro: le_SucI length_dropWhile_le)

section \<open>The Document Extractor (process.py)\<close>

text \<open>A literal pattern (lower case) matched at the start of \<open>s\<close> under IGNORECASE.\<close>

fun ci_prefix :: "string \<Rightarrow> string \<Rightarrow> bool" where
  "ci_prefix [] s = True"
| "ci_prefix (p # ps) [] = False"
| "ci_prefix (p # ps) (c # cs) = (ascii_lower c = p \<and> ci_prefix ps cs)"

text \<open>
  The lazy \<open>.*?\<close> followed by the closing tag: the first place where the closing tag
  matches; the result is the text after it.
\<close>

fun find_close :: "string \<Rightarrow> string \<Rightarrow> string option" where
  "find_close cl [] = (if ci_prefix cl [] then Some [] else None)"
| "find_close cl (c # cs) =
     (if ci_prefix cl (c # cs) then Some (drop (length cl) (c # cs)) else find_close cl cs)"

text \<open>
  \<open><tag[^>]*>.*?</tag>\<close> matched at the start of \<open>s\<close> (DOTALL, IGNORECASE): the opening
  name, everything up to the first \<open>>\<close>, then up to the first closing tag. The result
  is the text after the match.
\<close>

definition match_block :: "string \<Rightarrow> string \<Rightarrow> string option" where
  "match_block tag s =
     (if ci_prefix (CHR ''<'' # tag) s
      then (case dropWhile (\<lambda>c. c \<noteq> CHR ''>'') (drop (Suc (length tag)) s) of
              [] \<Rightarrow> None
            | g # body \<Rightarrow> find_close (''</'' @ tag @ ''>'') body)
      else None)"


lemma find_close_length: "find_close cl s = Some r \<Longrightarrow> length r \<le> length s"
  by (induction s) (auto split: if_splits)

lemma match_block_length: "match_block tag s = Some r \<Longrightarrow> length r < length s"
proof -
  assume m: "match_block tag s = Some r"
  then have p: "ci_prefix (CHR ''<'' # tag) s"
    by (auto simp: match_block_def split: if_splits)
  then obtain c cs where s: "s = c # cs"
    by (cases s) auto
  let ?d = "dropWhile (\<lambda>c. c \<noteq> CHR ''>'') (drop (Suc (length tag)) s)"
  from m p obtain g body where d: "?d = g # body" and f: "find_close (''</'' @ tag @ ''>'') body = Some r"
    by (auto simp: match_block_def split: list.splits)
  have "length ?d \<le> length (drop (Suc (length tag)) s)"
    by (rule length_dropWhile_le)
  with d have "length body < length s"
    using s by simp
  with find_close_length [OF f] show ?thesis
    by simp
qed

text \<open>
  \<open>re.sub(r"<tag[^>]*>.*?</tag>", "", s, flags=re.DOTALL | re.IGNORECASE)\<close>: one pass from
  the left; where the pattern matches, the match is dropped and the pass goes on after
  it; elsewhere the character is kept.
\<close>

function remove_blocks :: "string \<Rightarrow> string \<Rightarrow> string" where
  "remove_blocks tag [] = []"
| "remove_blocks tag (c # cs) =
     (case match_block tag (c # cs) of
        Some rest \<Rightarrow> remove_blocks tag rest
      | None \<Rightarrow> c # remove_blocks tag cs)"
  by pat_completeness auto
termination
  by (relation "measure (\<lambda>(tag, s). length s)") (auto dest: match_block_length)

text \<open>The class \<open>[^'"\s>]\<close> of an attribute value.\<close>

definition is_value_char :: "char \<Rightarrow> bool" where
  "is_value_char c = (c \<noteq> CHR 0x27 \<and> c \<noteq> CHR 0x22 \<and> \<not> is_space c \<and> c \<noteq> CHR ''>'')"

text \<open>
  \<open>name=['"]?([^'"\s>]+)\<close> matched at the start of \<open>s\<close> under IGNORECASE: the attribute
  name and \<open>=\<close>, a quote when there is one, then the longest run of value characters,
  which must not be empty. The result is the captured value and the text after the match.
\<close>

definition skip_quote :: "string \<Rightarrow> string" where
  "skip_quote r =
     (case r of [] \<Rightarrow> [] | c # cs \<Rightarrow> if c = CHR 0x27 \<or> c = CHR 0x22 then cs else c # cs)"

definition match_attr :: "string \<Rightarrow> string \<Rightarrow> (string \<times> string) option" where
  "match_attr name s =
     (if ci_prefix (name @ ''='') s
      then (let q = skip_quote (drop (Suc (length name)) s);
                v = takeWhile is_value_char q
            in if v = [] then None else Some (v, dropWhile is_value_char q))
      else None)"

lemma skip_quote_length: "length (skip_quote r) \<le> length r"
  by (simp add: skip_quote_def split: list.splits)

lemma match_attr_length: "match_attr name s = Some (v, r) \<Longrightarrow> length r < length s"
proof -
  assume m: "match_attr name s = Some (v, r)"
  then have p: "ci_prefix (name @ ''='') s"
    by (auto simp: match_attr_def split: if_splits)
  then have s: "s \<noteq> []"
    by (cases name; cases s) auto
  let ?t = "drop (Suc (length name)) s"
  from m p have r: "r = dropWhile is_value_char (skip_quote ?t)"
    by (auto simp: match_attr_def Let_def split: if_splits)
  have "length r \<le> length (skip_quote ?t)"
    unfolding r by (rule length_dropWhile_le)
  moreover have "length (skip_quote ?t) \<le> length ?t"
    by (rule skip_quote_length)
  moreover have "length ?t < length s"
    using s by simp
  ultimately show ?thesis
    by simp
qed

text \<open>\<open>re.findall\<close> of that pattern: the captured values, left to right.\<close>

function find_attrs :: "string \<Rightarrow> string \<Rightarrow> string list" where
  "find_attrs name [] = []"
| "find_attrs name (c # cs) =
     (case match_attr name (c # cs) of
        Some (v, rest) \<Rightarrow> v # find_attrs name rest
      | None \<Rightarrow> find_attrs name cs)"
  by pat_completeness auto
termination
  by (relation "measure (\<lambda>(name, s). length s)") (auto dest: match_attr_length)

text \<open>
  \<open><[^>]+>\<close> matched at the start of \<open>s\<close>: \<open><\<close>, at least one character other than
  \<open>>\<close>, and the first \<open>>\<close>. The result is the text after the match.
\<close>

definition match_tag :: "string \<Rightarrow> string option" where
  "match_tag s =
     (case s of
        [] \<Rightarrow> None
      | c # cs \<Rightarrow>
          if c = CHR ''<'' \<and> takeWhile (\<lambda>x. x \<noteq> CHR ''>'') cs \<noteq> []
             \<and> dropWhile (\<lambda>x. x \<noteq> CHR ''>'') cs \<noteq> []
          then Some (tl (dropWhile (\<lambda>x. x \<noteq> CHR ''>'') cs))
          else None)"

lemma match_tag_length: "match_tag s = Some r \<Longrightarrow> length r < length s"
proof -
  assume m: "match_tag s = Some r"
  then obtain c cs where s: "s = c # cs" and r: "r = tl (dropWhile (\<lambda>x. x \<noteq> CHR ''>'') cs)"
    by (auto simp: match_tag_def split: list.splits if_splits)
  have "length (dropWhile (\<lambda>x. x \<noteq> CHR ''>'') cs) \<le> length cs"
    by (rule length_dropWhile_le)
  then show ?thesis
    using s r by simp
qed

text \<open>\<open>re.sub(r"<[^>]+>", " ", s)\<close>: every match becomes one space.\<close>

function remove_tags :: "string \<Rightarrow> string" where
  "remove_tags [] = []"
| "remove_tags (c # cs) =
     (case match_tag (c # cs) of
        Some rest \<Rightarrow> CHR '' '' # remove_tags rest
      | None \<Rightarrow> c # remove_tags cs)"
  by pat_completeness auto
termination
  by (relation "measure length") (auto dest: match_tag_length)

text \<open>\<open>re.sub(r"\s+", " ", s)\<close>: every maximal run of whitespace becomes one space.\<close>

function collapse_ws :: "string \<Rightarrow> string" where
  "collapse_ws [] = []"
| "collapse_ws (c # cs) =
     (if is_space c then CHR '' '' # collapse_ws (dropWhile is_space cs)
      else c # collapse_ws cs)"
  by pat_completeness auto
termination
  by (relation "measure length") (auto simp: less_Suc_eq_le length_dropWhile_le)

definition strip_html :: "string \<Rightarrow> string \<times> string list \<times> string list" where
  "strip_html html_content =
     (let h1 = remove_blocks ''script'' html_content;
          h2 = remove_blocks ''style'' h1;
          links = find_attrs ''href'' h2;
          images = find_attrs ''src'' h2;
          text = remove_tags h2;
          text = strip (collapse_ws text)
      in (text, links, images))"

record statistics =
  word_count :: nat
  sentence_count :: nat
  paragraph_count :: nat
  avg_word_length :: rat

definition text_statistics :: "string \<Rightarrow> statistics" where
  "text_statistics text =
     (let words = find_words text;
          word_count = length words;
          sentences = split_sentences text;
          sentence_count = length sentences;
          paragraphs = filter (\<lambda>p. strip p \<noteq> []) (split_paragraphs_from [] text);
          paragraph_count = (if paragraphs \<noteq> [] then length paragraphs
                             else max 1 (sentence_count div 3));
          avg_word_length = (if word_count \<noteq> 0
                             then of_nat (sum_list (map length words)) / of_nat word_count
                             else 0)
      in \<lparr>word_count = word_count, sentence_count = sentence_count,
          paragraph_count = paragraph_count, avg_word_length = py_round 3 avg_word_length\<rparr>)"

record extracted_record =
  source_file :: string
  rec_text :: string
  statistics :: statistics
  links :: "string list"
  images :: "string list"
  processed_at :: string

text \<open>
  \<open>process_one_html\<close> after the file is read: \<open>html\<close> is its content, \<open>now\<close> the
  clock's reading. The read itself, which may fail, is in the driver below.
\<close>

definition process_one_html :: "string \<Rightarrow> string \<Rightarrow> string \<Rightarrow> extracted_record" where
  "process_one_html now html_name html =
     (case strip_html html of
        (txt, lnks, imgs) \<Rightarrow>
          \<lparr>source_file = html_name, rec_text = txt, statistics = text_statistics txt,
           links = lnks, images = imgs, processed_at = now\<rparr>)"

section \<open>The Extraction Driver (process.py, main)\<close>

text \<open>
  \<open>os.path.splitext\<close> on a file name without directory: the extension starts at the last
  dot, unless only dots stand before it (then there is no extension).
\<close>

definition splitext :: "string \<Rightarrow> string \<times> string" where
  "splitext p =
     (let r = rev p;
          ext = rev (takeWhile (\<lambda>c. c \<noteq> CHR ''.'') r);
          rest = dropWhile (\<lambda>c. c \<noteq> CHR ''.'') r
      in if rest = [] \<or> list_all (\<lambda>c. c = CHR ''.'') (tl rest) then (p, [])
         else (rev (tl rest), CHR ''.'' # ext))"

record completion_marker =
  timestamp :: string
  inputs_detected :: nat
  processed_success :: nat
  processed_failed :: nat
  outputs :: "string list"

text \<open>
  The driver's variables, and \<open>written\<close>: the record files it has put under
  \<open>/shared/processed\<close>, in the order of writing.
\<close>

record driver_state =
  processed_files :: "string list"
  successes :: nat
  failures :: nat
  written :: "(string \<times> extracted_record) list"

text \<open>
  One turn of the loop over \<open>html_files\<close>. A raw document is its file name and its
  content, \<open>None\<close> when reading it raises; \<open>writable out_name\<close> tells whether the record
  file can be written. Either exception is caught by the \<open>except Exception\<close> of the loop.
\<close>

definition process_step ::
  "string \<Rightarrow> (string \<Rightarrow> bool) \<Rightarrow> driver_state \<Rightarrow> string \<times> string option \<Rightarrow> driver_state" where
  "process_step now writable st f =
     (case snd f of
        None \<Rightarrow> st\<lparr>failures := failures st + 1\<rparr>
      | Some html \<Rightarrow>
          (let data = process_one_html now (fst f) html;
               out_name = fst (splitext (fst f)) @ ''.json''
           in if writable out_name
              then st\<lparr>written := written st @ [(out_name, data)],
                      processed_files := processed_files st @ [out_name],
                      successes := successes st + 1\<rparr>
              else st\<lparr>failures := failures st + 1\<rparr>))"

text \<open>
  \<open>main\<close> of process.py once the fetch marker exists (the wait before it and the pauses
  are left out). \<open>raw\<close> is what \<open>glob\<close> finds in \<open>/shared/raw\<close>; one reading of the clock
  stands for all of them. The result is the marker and the record files written.
\<close>

definition main_process ::
  "string \<Rightarrow> (string \<Rightarrow> bool) \<Rightarrow> (string \<times> string option) list
     \<Rightarrow> completion_marker \<times> (string \<times> extracted_record) list" where
  "main_process now writable raw =
     (let html_files = sort_key fst raw;
          st = foldl (process_step now writable)
                 \<lparr>processed_files = [], successes = 0, failures = 0, written = []\<rparr> html_files
      in (\<lparr>timestamp = now, inputs_detected = length html_files,
           processed_success = successes st, processed_failed = failures st,
           outputs = processed_files st\<rparr>, written st))"

section \<open>The Corpus Aggregator (analyze.py)\<close>

definition tokenize_words :: "string \<Rightarrow> string list" where
  "tokenize_words text = map lower (find_words text)"

text \<open>\<open>" ".join(ws)\<close>\<close>

fun join_space :: "string list \<Rightarrow> string" where
  "join_space [] = []"
| "join_space [w] = w"
| "join_space (w # v # ws) = w @ '' '' @ join_space (v # ws)"

text \<open>
  \<open>range(len(words) - n + 1)\<close> is empty when the bound is not positive, as the
  subtraction on \<open>nat\<close> makes it here.
\<close>

definition ngrams :: "string list \<Rightarrow> nat \<Rightarrow> string list" where
  "ngrams ws n = map (\<lambda>i. join_space (take n (drop i ws))) [0 ..< Suc (length ws) - n]"

definition jaccard_similarity :: "string list \<Rightarrow> string list \<Rightarrow> rat" where
  "jaccard_similarity doc1_words doc2_words =
     (let set1 = set doc1_words;
          set2 = set doc2_words;
          un = set1 \<union> set2
      in if un \<noteq> {} then of_nat (card (set1 \<inter> set2)) / of_nat (card un) else 0)"

text \<open>
  \<open>collections.Counter\<close>: a dict from element to count which keeps the order in which
  the elements were first seen.
\<close>

fun counter_add :: "'a \<Rightarrow> ('a \<times> nat) list \<Rightarrow> ('a \<times> nat) list" where
  "counter_add x [] = [(x, 1)]"
| "counter_add x ((y, c) # ys) =
     (if x = y then (y, c + 1) # ys else (y, c) # counter_add x ys)"

definition counter :: "'a list \<Rightarrow> ('a \<times> nat) list" where
  "counter xs = foldl (\<lambda>c x. counter_add x c) [] xs"

text \<open>
  \<open>most_common(n)\<close>: the items sorted by count, largest first, by a stable sort (items of
  equal count stay in the order of the dict), and the first \<open>n\<close> of them.
\<close>

definition most_common :: "nat \<Rightarrow> ('a \<times> nat) list \<Rightarrow> ('a \<times> nat) list" where
  "most_common n c = take n (sort_key (\<lambda>p. - int (snd p)) c)"

text \<open>\<open>itertools.combinations(xs, 2)\<close>\<close>

fun combinations2 :: "'a list \<Rightarrow> ('a \<times> 'a) list" where
  "combinations2 [] = []"
| "combinations2 (x # xs) = map (Pair x) xs @ combinations2 xs"

text \<open>
  What \<open>json.load\<close> returns. An object is the dict after parsing, as its items (one per
  key). A number is truthy when it is not zero.
\<close>

datatype json =
  JNull | JBool bool | JNum rat | JStr string | JArr "json list" | JObj "(string \<times> json) list"

fun truthy :: "json \<Rightarrow> bool" where
  "truthy JNull = False"
| "truthy (JBool b) = b"
| "truthy (JNum x) = (x \<noteq> 0)"
| "truthy (JStr s) = (s \<noteq> [])"
| "truthy (JArr xs) = (xs \<noteq> [])"
| "truthy (JObj kvs) = (kvs \<noteq> [])"

text \<open>
  The exceptions that leave \<open>main\<close>: \<open>data.get\<close> on a value that is not a dict, and
  \<open>re.findall\<close> on a text that is not a string.
\<close>

datatype error = AttributeError | TypeError

record doc =
  name :: string
  words :: "string list"

record corpus =
  docs :: "doc list"
  all_words :: "string list"
  all_bigrams :: "string list"
  all_trigrams :: "string list"
  total_word_chars :: nat
  total_sentences :: nat

text \<open>The variables of \<open>main\<close> before the loop.\<close>

definition empty_corpus :: corpus where
  "empty_corpus = \<lparr>docs = [], all_words = [], all_bigrams = [], all_trigrams = [],
                    total_word_chars = 0, total_sentences = 0\<rparr>"

text \<open>
  The loop over \<open>processed_files\<close>. A record file is its name and what \<open>json.load\<close>
  gives, \<open>None\<close> when opening or parsing it raises (the \<open>except\<close> branch: skip).
\<close>

fun load_records :: "corpus \<Rightarrow> (string \<times> json option) list \<Rightarrow> error + corpus" where
  "load_records acc [] = Inr acc"
| "load_records acc ((path, None) # fs) = load_records acc fs"
| "load_records acc ((path, Some (JObj kvs)) # fs) =
     (let v = (case map_of kvs ''text'' of None \<Rightarrow> JStr [] | Some x \<Rightarrow> x);
          txt = (if truthy v then v else JStr [])
      in case txt of
           JStr t \<Rightarrow>
             (let ws = tokenize_words t;
                  sentences = split_sentences t
              in load_records
                   (acc\<lparr>docs := docs acc @ [\<lparr>name = path, words = ws\<rparr>],
                        all_words := all_words acc @ ws,
                        total_word_chars := total_word_chars acc + sum_list (map length ws),
                        total_sentences := total_sentences acc + length sentences,
                        all_bigrams := all_bigrams acc @ ngrams ws 2,
                        all_trigrams := all_trigrams acc @ ngrams ws 3\<rparr>) fs)
         | _ \<Rightarrow> Inl TypeError)"
| "load_records acc ((path, Some data) # fs) = Inl AttributeError"

record word_entry =
  word :: string
  count :: nat
  frequency :: rat

record similarity_entry =
  doc1 :: string
  doc2 :: string
  similarity :: rat

record readability =
  avg_sentence_length :: rat
  avg_word_length :: rat
  complexity_score :: rat

text \<open>
  The report. An n-gram entry \<open>{"bigram": g, "count": c}\<close> is the pair \<open>(g, c)\<close>. A key
  that the dict does not have is \<open>None\<close>.
\<close>

record corpus_report =
  processing_timestamp :: string
  documents_processed :: nat
  total_words :: nat
  unique_words :: nat
  top_100_words :: "word_entry list"
  document_similarity :: "similarity_entry list"
  top_bigrams :: "(string \<times> nat) list"
  top_trigrams :: "(string \<times> nat) list option"
  readability :: readability

text \<open>
  \<open>main\<close> of analyze.py once the extraction marker exists. \<open>files\<close> is what \<open>glob\<close>
  finds in \<open>/shared/processed\<close>. The result is the report written, or the exception
  that ends the run.
\<close>

definition main_analyze :: "string \<Rightarrow> (string \<times> json option) list \<Rightarrow> error + corpus_report" where
  "main_analyze now files =
     (let processed_files = sort_key fst files
      in case load_records empty_corpus processed_files of
           Inl e \<Rightarrow> Inl e
         | Inr acc \<Rightarrow>
            (let total_words = length (all_words acc);
                 unique_words = card (set (all_words acc))
             in if total_words = 0
                then Inr \<lparr>processing_timestamp = now, documents_processed = length (docs acc),
                          total_words = 0, unique_words = 0, top_100_words = [],
                          document_similarity = [], top_bigrams = [], top_trigrams = None,
                          readability = \<lparr>avg_sentence_length = 0, avg_word_length = 0,
                                         complexity_score = 0\<rparr>\<rparr>
                else
                  (let word_counter = counter (all_words acc);
                       top_100 = map (\<lambda>(w, c). \<lparr>word = w, count = c,
                                        frequency = py_round 6 (of_nat c / of_nat total_words)\<rparr>)
                                   (most_common 100 word_counter);
                       similarities = map (\<lambda>(d1, d2). \<lparr>doc1 = name d1, doc2 = name d2,
                                             similarity = py_round 6 (jaccard_similarity (words d1) (words d2))\<rparr>)
                                        (combinations2 (docs acc));
                       bigrams = most_common 50 (counter (all_bigrams acc));
                       trigrams = most_common 50 (counter (all_trigrams acc));
                       asl = (if total_sentences acc \<noteq> 0
                              then of_nat total_words / of_nat (total_sentences acc)
                              else of_nat total_words);
                       awl = (if total_words \<noteq> 0
                              then of_nat (total_word_chars acc) / of_nat total_words else 0);
                       cs = py_round 6 (asl * awl)
                   in Inr \<lparr>processing_timestamp = now, documents_processed = length (docs acc),
                            total_words = total_words, unique_words = unique_words,
                            top_100_words = top_100, document_similarity = similarities,
                            top_bigrams = bigrams, top_trigrams = Some trigrams,
                            readability = \<lparr>avg_sentence_length = py_round 6 asl,
                                           avg_word_length = py_round 6 awl,
                                           complexity_score = cs\<rparr>\<rparr>)))"

section \<open>Notions used to state the properties\<close>



fun occurs :: "string \<Rightarrow> string \<Rightarrow> bool" where
  "occurs p [] = ci_prefix p []"
| "occurs p (c # cs) = (ci_prefix p (c # cs) \<or> occurs p cs)"

fun starts_nowhere :: "string \<Rightarrow> string \<Rightarrow> string \<Rightarrow> bool" where
  "starts_nowhere p [] w = True"
| "starts_nowhere p (c # u) w = (\<not> ci_prefix p (c # u @ w) \<and> starts_nowhere p u w)"

text \<open>
  The scenario of the specification: two records with the texts
  \<open>Hello world. Hello again!\<close> and \<open>Hello world again.\<close>, and a third file that does not
  parse. \<open>scenario_corpus\<close> is what the loop has gathered after them.
\<close>

definition scenario_files :: "(string \<times> json option) list" where
  "scenario_files =
     [(''b.json'', Some (JObj [(''source_file'', JStr ''b.html''), (''text'', JStr ''Hello world again.'')])),
      (''c.json'', None),
      (''a.json'', Some (JObj [(''source_file'', JStr ''a.html''), (''text'', JStr ''Hello world. Hello again!'')]))]"


section \<open>Jaccard similarity\<close>

lemma jaccard_sym: "jaccard_similarity a b = jaccard_similarity b a"
  by (simp add: jaccard_similarity_def Let_def Un_commute Int_commute)

lemma jaccard_range: "0 \<le> jaccard_similarity a b \<and> jaccard_similarity a b \<le> 1"
proof -
  have "card (set a \<inter> set b) \<le> card (set a \<union> set b)"
    by (rule card_mono) auto
  then show ?thesis
    by (auto simp: jaccard_similarity_def Let_def divide_le_eq_1)
qed

lemma jaccard_self: "d \<noteq> [] \<Longrightarrow> jaccard_similarity d d = 1"
  by (auto simp: jaccard_similarity_def Let_def card_gt_0_iff)

text \<open>
  C5, as stated, fails for the empty token list: both sets are empty, the union is
  empty, and the guard of \<open>jaccard_similarity\<close> returns 0.0, not 1.0.
\<close>

theorem C5_counterexample_empty_self:
  "jaccard_similarity [] [] = 0 \<and> jaccard_similarity [] [] \<noteq> 1"
  by (simp add: jaccard_similarity_def)

text \<open>
  C5, amended: for all token lists \<open>a\<close> and \<open>b\<close>, \<open>jaccard_similarity a b\<close> equals
  \<open>jaccard_similarity b a\<close> and lies in [0, 1]; and for every token list \<open>d\<close> that is not
  empty, \<open>jaccard_similarity d d\<close> is 1.
\<close>

theorem C5_jaccard_symmetric_bounded_self:
  "jaccard_similarity a b = jaccard_similarity b a
   \<and> 0 \<le> jaccard_similarity a b \<and> jaccard_similarity a b \<le> 1
   \<and> (d \<noteq> [] \<longrightarrow> jaccard_similarity d d = 1)"
  using jaccard_sym [of a b] jaccard_range [of a b] jaccard_self [of d] by blast

theorem C5_jaccard_witness:
  "[''hello'', ''world''] \<noteq> []
   \<and> jaccard_similarity [''hello'', ''world''] [''hello'', ''world''] = 1
   \<and> jaccard_similarity [''hello''] [''world'', ''hello''] = jaccard_similarity [''world'', ''hello''] [''hello'']
   \<and> jaccard_similarity [''hello''] [''world'', ''hello''] \<le> 1"
  using C5_jaccard_symmetric_bounded_self [of "[''hello'']" "[''world'', ''hello'']" "[''hello'', ''world'']"]
  by simp

section \<open>The Corpus Aggregator: loading the records\<close>

lemma main_analyze_loaded:
  assumes "load_records empty_corpus (sort_key fst files) = Inr acc"
  shows "main_analyze now files =
     (if length (all_words acc) = 0
      then Inr \<lparr>processing_timestamp = now, documents_processed = length (docs acc),
                total_words = 0, unique_words = 0, top_100_words = [],
                document_similarity = [], top_bigrams = [], top_trigrams = None,
                readability = \<lparr>avg_sentence_length = 0, avg_word_length = 0,
                               complexity_score = 0\<rparr>\<rparr>
      else Inr \<lparr>processing_timestamp = now, documents_processed = length (docs acc),
                total_words = length (all_words acc), unique_words = card (set (all_words acc)),
                top_100_words =
                  map (\<lambda>(w, c). \<lparr>word = w, count = c,
                         frequency = py_round 6 (of_nat c / of_nat (length (all_words acc)))\<rparr>)
                    (most_common 100 (counter (all_words acc))),
                document_similarity =
                  map (\<lambda>(d1, d2). \<lparr>doc1 = name d1, doc2 = name d2,
                         similarity = py_round 6 (jaccard_similarity (words d1) (words d2))\<rparr>)
                    (combinations2 (docs acc)),
                top_bigrams = most_common 50 (counter (all_bigrams acc)),
                top_trigrams = Some (most_common 50 (counter (all_trigrams acc))),
                readability =
                  \<lparr>avg_sentence_length =
                     py_round 6 (if total_sentences acc \<noteq> 0
                                 then of_nat (length (all_words acc)) / of_nat (total_sentences acc)
                                 else of_nat (length (all_words acc))),
                   avg_word_length =
                     py_round 6 (of_nat (total_word_chars acc) / of_nat (length (all_words acc))),
                   complexity_score =
                     py_round 6 ((if total_sentences acc \<noteq> 0
                                  then of_nat (length (all_words acc)) / of_nat (total_sentences acc)
                                  else of_nat (length (all_words acc)))
                                 * (of_nat (total_word_chars acc) / of_nat (length (all_words acc))))\<rparr>\<rparr>)"
  using assms by (simp add: main_analyze_def Let_def)

lemma load_records_skip:
  "load_records acc fs = load_records acc (filter (\<lambda>f. snd f \<noteq> None) fs)"
  by (induction acc fs rule: load_records.induct) (simp_all add: Let_def split: json.splits)

lemma load_records_docs_length:
  "load_records acc fs = Inr acc' \<Longrightarrow>
   length (docs acc') = length (docs acc) + length (filter (\<lambda>f. snd f \<noteq> None) fs)"
  by (induction acc fs arbitrary: acc' rule: load_records.induct)
     (auto simp: Let_def split: json.splits)

lemma load_records_total:
  assumes "list_all (\<lambda>f. case snd f of None \<Rightarrow> True
             | Some d \<Rightarrow> (case d of JObj kvs \<Rightarrow> (case map_of kvs ''text'' of Some (JStr t) \<Rightarrow> True | _ \<Rightarrow> False)
                         | _ \<Rightarrow> False)) fs"
  shows "\<exists>acc'. load_records acc fs = Inr acc'"
  using assms
  by (induction acc fs rule: load_records.induct)
     (auto simp: Let_def split: json.splits option.splits)


text \<open>
  C6: for every set of record files, a file that does not parse is skipped: the run ends
  as it does without that file (the same report, so the file adds nothing to any
  statistic, and the same exception if there is one, so it never ends the run by
  itself). Whenever a report is written, its \<open>documents_processed\<close> is the number of
  files that parsed. When every file that parses is an object with a string as its text,
  as the Extraction Driver writes them, a report is written.
\<close>

theorem C6_documents_processed_counts_parsed:
  "main_analyze now files = main_analyze now (filter (\<lambda>f. snd f \<noteq> None) files)
   \<and> (\<forall>r. main_analyze now files = Inr r \<longrightarrow>
          documents_processed r = length (filter (\<lambda>f. snd f \<noteq> None) files))
   \<and> (list_all (\<lambda>f. case snd f of None \<Rightarrow> True
             | Some d \<Rightarrow> (case d of JObj kvs \<Rightarrow> (case map_of kvs ''text'' of Some (JStr t) \<Rightarrow> True | _ \<Rightarrow> False)
                         | _ \<Rightarrow> False)) files
        \<longrightarrow> (\<exists>r. main_analyze now files = Inr r))"
proof (intro conjI)
  show "main_analyze now files = main_analyze now (filter (\<lambda>f. snd f \<noteq> None) files)"
    using load_records_skip [of empty_corpus "sort_key fst files"]
    by (simp add: main_analyze_def filter_sort)
next
  show "\<forall>r. main_analyze now files = Inr r \<longrightarrow>
          documents_processed r = length (filter (\<lambda>f. snd f \<noteq> None) files)"
  proof (intro allI impI)
    fix r
    assume m: "main_analyze now files = Inr r"
    then obtain acc where l: "load_records empty_corpus (sort_key fst files) = Inr acc"
      by (cases "load_records empty_corpus (sort_key fst files)") (auto simp: main_analyze_def)
    have "length (docs acc) = length (filter (\<lambda>f. snd f \<noteq> None) (sort_key fst files))"
      using load_records_docs_length [OF l] by (simp add: empty_corpus_def)
    also have "\<dots> = length (filter (\<lambda>f. snd f \<noteq> None) files)"
      by (simp add: filter_sort)
    finally have "length (docs acc) = length (filter (\<lambda>f. snd f \<noteq> None) files)" .
    moreover have "documents_processed r = length (docs acc)"
      using m main_analyze_loaded [OF l, of now] by (auto split: if_splits)
    ultimately show "documents_processed r = length (filter (\<lambda>f. snd f \<noteq> None) files)"
      by simp
  qed
next
  let ?ok = "\<lambda>f. case snd f of None \<Rightarrow> True
             | Some d \<Rightarrow> (case d of JObj kvs \<Rightarrow> (case map_of kvs ''text'' of Some (JStr t) \<Rightarrow> True | _ \<Rightarrow> False)
                         | _ \<Rightarrow> False)"
  show "list_all ?ok files \<longrightarrow> (\<exists>r. main_analyze now files = Inr r)"
  proof
    assume "list_all ?ok files"
    then have "list_all ?ok (sort_key fst files)"
      by (simp add: list_all_iff)
    from load_records_total [OF this, of empty_corpus]
    obtain acc where l: "load_records empty_corpus (sort_key fst files) = Inr acc" ..
    show "\<exists>r. main_analyze now files = Inr r"
      using main_analyze_loaded [OF l, of now] by (cases "length (all_words acc) = 0") simp_all
  qed
qed

theorem C6_scenario_witness:
  "main_analyze ''t'' scenario_files = main_analyze ''t'' (filter (\<lambda>f. snd f \<noteq> None) scenario_files)
   \<and> length (filter (\<lambda>f. snd f \<noteq> None) scenario_files) = 2
   \<and> (\<exists>r. main_analyze ''t'' scenario_files = Inr r \<and> documents_processed r = 2)"
proof -
  have ok: "list_all (\<lambda>f. case snd f of None \<Rightarrow> True
             | Some d \<Rightarrow> (case d of JObj kvs \<Rightarrow> (case map_of kvs ''text'' of Some (JStr t) \<Rightarrow> True | _ \<Rightarrow> False)
                         | _ \<Rightarrow> False)) scenario_files"
    by (simp add: scenario_files_def)
  have n: "length (filter (\<lambda>f. snd f \<noteq> None) scenario_files) = 2"
    by (simp add: scenario_files_def)
  from C6_documents_processed_counts_parsed [of "''t''" scenario_files] ok
  obtain r where r: "main_analyze ''t'' scenario_files = Inr r"
    by blast
  with C6_documents_processed_counts_parsed [of "''t''" scenario_files] n
  have "documents_processed r = 2"
    by simp
  with r n C6_documents_processed_counts_parsed [of "''t''" scenario_files] show ?thesis
    by blast
qed

text \<open>
  C10, as stated, fails: a record whose text is the number 5 is valid JSON with a text
  that is not a string, and a record that is the array \<open>[]\<close> is valid JSON without a
  text field. The first raises TypeError in \<open>re.findall\<close>, the second AttributeError at
  \<open>data.get\<close>; neither is caught, and no report is written.
\<close>

theorem C10_counterexample_number_text:
  "main_analyze ''t'' [(''a.json'', Some (JObj [(''text'', JNum 5)]))] = Inl TypeError
   \<and> main_analyze ''t'' [(''a.json'', Some (JArr []))] = Inl AttributeError"
  by code_simp

text \<open>
  C10, amended: for every record file that parses to a JSON object which has no text
  field, or whose text field is falsy (null, false, zero, an empty string, array or
  object), the loop treats its text as the empty string: it goes on as it does for the
  record \<open>{"text": ""}\<close>, the record joins \<open>docs\<close> (so it is counted in
  \<open>documents_processed\<close> and takes part in the pairwise similarities) with no tokens, and
  the words, sentences, characters and n-grams of the corpus stay as they were.
\<close>

theorem C10_missing_or_falsy_text_is_empty:
  assumes "map_of kvs ''text'' = None \<or> (\<exists>v. map_of kvs ''text'' = Some v \<and> \<not> truthy v)"
  shows "load_records acc ((p, Some (JObj kvs)) # fs)
           = load_records (acc\<lparr>docs := docs acc @ [\<lparr>name = p, words = []\<rparr>]\<rparr>) fs
         \<and> load_records acc ((p, Some (JObj kvs)) # fs)
           = load_records acc ((p, Some (JObj [(''text'', JStr [])])) # fs)"
proof -
  have e: "tokenize_words [] = []" "split_sentences [] = []" "ngrams [] 2 = []" "ngrams [] 3 = []"
    by (simp_all add: tokenize_words_def find_words_def split_sentences_def strip_def ngrams_def)
  have r: "acc\<lparr>docs := docs acc @ [\<lparr>name = p, words = []\<rparr>], all_words := all_words acc,
              total_word_chars := total_word_chars acc, total_sentences := total_sentences acc,
              all_bigrams := all_bigrams acc, all_trigrams := all_trigrams acc\<rparr>
           = acc\<lparr>docs := docs acc @ [\<lparr>name = p, words = []\<rparr>]\<rparr>"
    by simp
  from assms show ?thesis
    by (auto simp: Let_def e r)
qed

theorem C10_missing_text_witness:
  "(map_of [(''source_file'', JStr ''a.html'')] ''text'' = None
      \<or> (\<exists>v. map_of [(''source_file'', JStr ''a.html'')] ''text'' = Some v \<and> \<not> truthy v))
   \<and> load_records empty_corpus [(''a.json'', Some (JObj [(''source_file'', JStr ''a.html'')]))]
       = Inr (empty_corpus\<lparr>docs := [\<lparr>name = ''a.json'', words = []\<rparr>]\<rparr>)
   \<and> (map_of [(''text'', JNull)] ''text'' = None
      \<or> (\<exists>v. map_of [(''text'', JNull)] ''text'' = Some v \<and> \<not> truthy v))
   \<and> load_records empty_corpus [(''b.json'', Some (JObj [(''text'', JNull)]))]
       = Inr (empty_corpus\<lparr>docs := [\<lparr>name = ''b.json'', words = []\<rparr>]\<rparr>)"
proof -
  have a: "map_of [(''source_file'', JStr ''a.html'')] ''text'' = None
      \<or> (\<exists>v. map_of [(''source_file'', JStr ''a.html'')] ''text'' = Some v \<and> \<not> truthy v)"
    by simp
  have b: "map_of [(''text'', JNull)] ''text'' = None
      \<or> (\<exists>v. map_of [(''text'', JNull)] ''text'' = Some v \<and> \<not> truthy v)"
    by simp
  show ?thesis
    using a b
      C10_missing_or_falsy_text_is_empty [OF a, of empty_corpus "''a.json''" "[]"]
      C10_missing_or_falsy_text_is_empty [OF b, of empty_corpus "''b.json''" "[]"]
    by (simp add: empty_corpus_def)
qed

section \<open>The Corpus Aggregator: the empty corpus\<close>

text \<open>
  C1, as stated, fails: a corpus of one record with an empty text has no token, and the
  report counts one document, not zero. (The report of this branch has no
  \<open>top_trigrams\<close> key either.)
\<close>

theorem C1_counterexample_one_empty_record:
  "load_records empty_corpus (sort_key fst [(''a.json'', Some (JObj [(''text'', JStr [])]))])
     = Inr \<lparr>docs = [\<lparr>name = ''a.json'', words = []\<rparr>], all_words = [], all_bigrams = [],
            all_trigrams = [], total_word_chars = 0, total_sentences = 0\<rparr>
   \<and> main_analyze ''t'' [(''a.json'', Some (JObj [(''text'', JStr [])]))]
     = Inr \<lparr>processing_timestamp = ''t'', documents_processed = 1, total_words = 0,
            unique_words = 0, top_100_words = [], document_similarity = [], top_bigrams = [],
            top_trigrams = None,
            readability = \<lparr>avg_sentence_length = 0, avg_word_length = 0, complexity_score = 0\<rparr>\<rparr>"
  by code_simp

text \<open>
  C1, amended: for every corpus whose token count is zero after loading, the aggregator
  writes a report whose \<open>total_words\<close> and \<open>unique_words\<close> are zero, whose
  \<open>documents_processed\<close> is the number of records loaded, whose \<open>top_100_words\<close>,
  \<open>document_similarity\<close> and \<open>top_bigrams\<close> are present and empty, and whose readability
  values are zero; nothing of the word-frequency, similarity and n-gram steps is in it.
\<close>

theorem C1_empty_corpus_report:
  assumes "load_records empty_corpus (sort_key fst files) = Inr acc" and "all_words acc = []"
  shows "\<exists>r. main_analyze now files = Inr r
           \<and> documents_processed r = length (docs acc)
           \<and> total_words r = 0 \<and> unique_words r = 0
           \<and> top_100_words r = [] \<and> document_similarity r = [] \<and> top_bigrams r = []
           \<and> readability r = \<lparr>avg_sentence_length = 0, avg_word_length = 0, complexity_score = 0\<rparr>"
  using main_analyze_loaded [OF assms(1), of now] assms(2) by simp

theorem C1_empty_corpus_witness:
  "load_records empty_corpus (sort_key fst [(''b.json'', Some (JObj [(''text'', JStr ''...'')])), (''a.json'', Some (JObj []))])
     = Inr (empty_corpus\<lparr>docs := [\<lparr>name = ''a.json'', words = []\<rparr>, \<lparr>name = ''b.json'', words = []\<rparr>]\<rparr>)
   \<and> all_words (empty_corpus\<lparr>docs := [\<lparr>name = ''a.json'', words = []\<rparr>, \<lparr>name = ''b.json'', words = []\<rparr>]\<rparr>) = []
   \<and> (\<exists>r. main_analyze ''t'' [(''b.json'', Some (JObj [(''text'', JStr ''...'')])), (''a.json'', Some (JObj []))] = Inr r
          \<and> documents_processed r = 2 \<and> total_words r = 0 \<and> unique_words r = 0
          \<and> top_100_words r = [] \<and> document_similarity r = [] \<and> top_bigrams r = [])"
proof -
  let ?fs = "[(''b.json'', Some (JObj [(''text'', JStr ''...'')])), (''a.json'', Some (JObj []))]"
  let ?acc = "empty_corpus\<lparr>docs := [\<lparr>name = ''a.json'', words = []\<rparr>, \<lparr>name = ''b.json'', words = []\<rparr>]\<rparr>"
  have l: "load_records empty_corpus (sort_key fst ?fs) = Inr ?acc"
    by code_simp
  have e: "all_words ?acc = []"
    by (simp add: empty_corpus_def)
  from C1_empty_corpus_report [OF l e, of "''t''"] l e show ?thesis
    by auto
qed

section \<open>The Corpus Aggregator: word frequency\<close>


















section \<open>The Corpus Aggregator: pairwise similarity\<close>





section \<open>The Corpus Aggregator: readability\<close>




section \<open>The Extraction Driver: the completion marker\<close>

lemma process_step_fold:
  "successes (foldl (process_step now writable) st fs)
     = successes st + length (filter (\<lambda>f. snd f \<noteq> None \<and> writable (fst (splitext (fst f)) @ ''.json'')) fs)
   \<and> failures (foldl (process_step now writable) st fs)
     = failures st + length (filter (\<lambda>f. \<not> (snd f \<noteq> None \<and> writable (fst (splitext (fst f)) @ ''.json''))) fs)
   \<and> processed_files (foldl (process_step now writable) st fs)
     = processed_files st
       @ map (\<lambda>f. fst (splitext (fst f)) @ ''.json'')
           (filter (\<lambda>f. snd f \<noteq> None \<and> writable (fst (splitext (fst f)) @ ''.json'')) fs)
   \<and> map fst (written (foldl (process_step now writable) st fs))
     = map fst (written st)
       @ map (\<lambda>f. fst (splitext (fst f)) @ ''.json'')
           (filter (\<lambda>f. snd f \<noteq> None \<and> writable (fst (splitext (fst f)) @ ''.json'')) fs)"
proof (induction fs arbitrary: st)
  case Nil
  then show ?case by simp
next
  case (Cons f fs)
  show ?case
  proof (cases "snd f")
    case None
    then show ?thesis
      using Cons.IH [of "process_step now writable st f"]
      by (simp add: process_step_def)
  next
    case (Some html)
    then show ?thesis
      using Cons.IH [of "process_step now writable st f"]
      by (cases "writable (fst (splitext (fst f)) @ ''.json'')")
         (simp_all add: process_step_def Let_def)
  qed
qed

text \<open>
  C8: for every run of the Extraction Driver, the marker satisfies
  \<open>inputs_detected = processed_success + processed_failed\<close> (and \<open>inputs_detected\<close> is the
  number of raw documents found), \<open>outputs\<close> has \<open>processed_success\<close> entries, and
  \<open>outputs\<close> is the list of record names of the documents that were read and written,
  in the order of the sorted source file names; these are the names of the record files
  written.
\<close>

theorem C8_completion_marker:
  "inputs_detected (fst (main_process now writable raw))
     = processed_success (fst (main_process now writable raw))
       + processed_failed (fst (main_process now writable raw))
   \<and> inputs_detected (fst (main_process now writable raw)) = length raw
   \<and> length (outputs (fst (main_process now writable raw)))
     = processed_success (fst (main_process now writable raw))
   \<and> outputs (fst (main_process now writable raw))
     = map (\<lambda>f. fst (splitext (fst f)) @ ''.json'')
         (filter (\<lambda>f. snd f \<noteq> None \<and> writable (fst (splitext (fst f)) @ ''.json''))
            (sort_key fst raw))
   \<and> sorted (map fst (sort_key fst raw))
   \<and> map fst (snd (main_process now writable raw)) = outputs (fst (main_process now writable raw))"
proof -
  let ?ok = "\<lambda>f. snd f \<noteq> None \<and> writable (fst (splitext (fst f)) @ ''.json'')"
  let ?st0 = "\<lparr>processed_files = [], successes = 0, failures = 0, written = []\<rparr>"
  have "length (filter ?ok (sort_key fst raw)) + length (filter (\<lambda>f. \<not> ?ok f) (sort_key fst raw))
          = length (sort_key fst raw)"
    by (rule sum_length_filter_compl)
  then show ?thesis
    using process_step_fold [of now writable ?st0 "sort_key fst raw"]
    by (simp add: main_process_def Let_def)
qed

theorem C8_marker_witness:
  "inputs_detected (fst (main_process ''t'' (\<lambda>n. n \<noteq> ''b.json'')
       [(''c.html'', None), (''b.html'', Some ''<p>x</p>''), (''a.html'', Some ''<p>Hi there.</p>''),
        (''a-b.html'', Some [])])) = 4
   \<and> processed_success (fst (main_process ''t'' (\<lambda>n. n \<noteq> ''b.json'')
       [(''c.html'', None), (''b.html'', Some ''<p>x</p>''), (''a.html'', Some ''<p>Hi there.</p>''),
        (''a-b.html'', Some [])])) = 2
   \<and> processed_failed (fst (main_process ''t'' (\<lambda>n. n \<noteq> ''b.json'')
       [(''c.html'', None), (''b.html'', Some ''<p>x</p>''), (''a.html'', Some ''<p>Hi there.</p>''),
        (''a-b.html'', Some [])])) = 2
   \<and> outputs (fst (main_process ''t'' (\<lambda>n. n \<noteq> ''b.json'')
       [(''c.html'', None), (''b.html'', Some ''<p>x</p>''), (''a.html'', Some ''<p>Hi there.</p>''),
        (''a-b.html'', Some [])])) = [''a-b.json'', ''a.json'']"
proof -
  let ?raw = "[(''c.html'', None), (''b.html'', Some ''<p>x</p>''), (''a.html'', Some ''<p>Hi there.</p>''),
        (''a-b.html'', Some [])]"
  let ?m = "fst (main_process ''t'' (\<lambda>n. n \<noteq> ''b.json'') ?raw)"
  have o: "map (\<lambda>f. fst (splitext (fst f)) @ ''.json'')
             (filter (\<lambda>f. snd f \<noteq> None \<and> fst (splitext (fst f)) @ ''.json'' \<noteq> ''b.json'')
                (sort_key fst ?raw)) = [''a-b.json'', ''a.json'']"
    by code_simp
  note c = C8_completion_marker [of "''t''" "\<lambda>n. n \<noteq> ''b.json''" ?raw]
  from c have "outputs ?m = map (\<lambda>f. fst (splitext (fst f)) @ ''.json'')
             (filter (\<lambda>f. snd f \<noteq> None \<and> fst (splitext (fst f)) @ ''.json'' \<noteq> ''b.json'')
                (sort_key fst ?raw))"
    by blast
  then have out: "outputs ?m = [''a-b.json'', ''a.json'']"
    by (simp only: o)
  from c have "length (outputs ?m) = processed_success ?m"
    by blast
  with out have suc: "processed_success ?m = 2"
    by simp
  from c have "inputs_detected ?m = length ?raw"
    by blast
  then have inp: "inputs_detected ?m = 4"
    by simp
  from c have "inputs_detected ?m = processed_success ?m + processed_failed ?m"
    by blast
  with inp suc have "processed_failed ?m = 2"
    by simp
  with inp suc out show ?thesis
    by blast
qed

section \<open>The Document Extractor: paragraphs\<close>

lemma collapse_ws_hd: "\<not> is_space c \<Longrightarrow> collapse_ws (c # cs) = c # collapse_ws cs"
  by simp

lemma collapse_ws_no_double:
  "successively (\<lambda>a b. \<not> (is_space a \<and> is_space b)) (collapse_ws s)"
proof (induction s rule: collapse_ws.induct)
  case 1
  then show ?case by simp
next
  case (2 c cs)
  show ?case
  proof (cases "is_space c")
    case True
    let ?r = "dropWhile is_space cs"
    have ih: "successively (\<lambda>a b. \<not> (is_space a \<and> is_space b)) (collapse_ws ?r)"
      using "2.IH"(1) True by simp
    have "collapse_ws ?r = [] \<or> \<not> is_space (hd (collapse_ws ?r))"
    proof (cases ?r)
      case Nil
      then have "collapse_ws ?r = []" by (simp only: collapse_ws.simps)
      then show ?thesis by blast
    next
      case (Cons d ds)
      then have "\<not> is_space d"
        using hd_dropWhile [of is_space cs] by simp
      with Cons show ?thesis by simp
    qed
    with ih True show ?thesis
      by (auto simp: successively_Cons)
  next
    case False
    with "2.IH"(2) show ?thesis
      by (simp add: successively_Cons)
  qed
qed

lemma successively_dropWhile: "successively P xs \<Longrightarrow> successively P (dropWhile R xs)"
proof -
  assume "successively P xs"
  then have "successively P (takeWhile R xs @ dropWhile R xs)"
    by simp
  then show ?thesis
    unfolding successively_append_iff by simp
qed

lemma strip_no_double:
  assumes "successively (\<lambda>a b. \<not> (is_space a \<and> is_space b)) s"
  shows "successively (\<lambda>a b. \<not> (is_space a \<and> is_space b)) (strip s)"
proof -
  have sym: "successively (\<lambda>a b. \<not> (is_space b \<and> is_space a)) xs
             = successively (\<lambda>a b. \<not> (is_space a \<and> is_space b)) xs" for xs
    by (simp add: conj_commute)
  from assms show ?thesis
    by (simp add: strip_def sym successively_dropWhile)
qed

lemma split_paragraphs_single:
  "successively (\<lambda>a b. \<not> (is_space a \<and> is_space b)) s \<Longrightarrow> split_paragraphs_from cur s = [cur @ s]"
  by (induction cur s rule: split_paragraphs_from.induct) auto

lemma strip_nonempty_iff: "strip t \<noteq> [] \<longleftrightarrow> (\<exists>c\<in>set t. \<not> is_space c)"
proof -
  have "(\<exists>c\<in>set (dropWhile is_space t). \<not> is_space c) \<longleftrightarrow> (\<exists>c\<in>set t. \<not> is_space c)"
  proof
    assume "\<exists>c\<in>set (dropWhile is_space t). \<not> is_space c"
    then show "\<exists>c\<in>set t. \<not> is_space c"
      by (blast dest: set_dropWhileD)
  next
    assume "\<exists>c\<in>set t. \<not> is_space c"
    then obtain c where c: "c \<in> set t" "\<not> is_space c" by blast
    have "set t = set (takeWhile is_space t) \<union> set (dropWhile is_space t)"
      by (metis set_append takeWhile_dropWhile_id)
    with c have "c \<in> set (dropWhile is_space t)"
      by (auto dest: set_takeWhileD)
    with c show "\<exists>c\<in>set (dropWhile is_space t). \<not> is_space c" by blast
  qed
  then show ?thesis
    by (auto simp: strip_def)
qed

lemma strip_has_nonspace: "strip u \<noteq> [] \<Longrightarrow> \<exists>c\<in>set (strip u). \<not> is_space c"
proof -
  let ?w = "dropWhile is_space (rev (dropWhile is_space u))"
  assume "strip u \<noteq> []"
  then have w: "?w \<noteq> []"
    by (simp add: strip_def)
  then have "\<not> is_space (hd ?w)"
    by (rule hd_dropWhile)
  moreover have "hd ?w \<in> set (strip u)"
    using w by (simp add: strip_def)
  ultimately show ?thesis by blast
qed

lemma paragraph_count_ge_1: "1 \<le> paragraph_count (text_statistics t)"
  by (cases "filter (\<lambda>p. strip p \<noteq> []) (split_paragraphs_from [] t)")
     (simp_all add: text_statistics_def Let_def)

lemma paragraph_count_collapsed:
  assumes "t = strip (collapse_ws u)" and "t \<noteq> []"
  shows "paragraph_count (text_statistics t) = 1"
proof -
  have "successively (\<lambda>a b. \<not> (is_space a \<and> is_space b)) t"
    unfolding assms(1) by (intro strip_no_double collapse_ws_no_double)
  then have s: "split_paragraphs_from [] t = [t]"
    using split_paragraphs_single [of t "[]"] by simp
  have "strip t \<noteq> []"
    using strip_has_nonspace [of "collapse_ws u"] assms strip_nonempty_iff [of t] by simp
  with s show ?thesis
    by (simp add: text_statistics_def Let_def)
qed

text \<open>
  C9: for every HTML input, \<open>paragraph_count\<close> of the record is at least 1, and when the
  extracted text is not empty it is exactly 1: the text has no two whitespace characters
  in a row, so the paragraph split returns it whole.
\<close>

theorem C9_paragraph_count:
  "1 \<le> paragraph_count (statistics (process_one_html now nm html))
   \<and> (rec_text (process_one_html now nm html) \<noteq> []
        \<longrightarrow> paragraph_count (statistics (process_one_html now nm html)) = 1)"
proof -
  obtain t ls ims where s: "strip_html html = (t, ls, ims)"
    by (cases "strip_html html") auto
  then have t: "t = strip (collapse_ws (remove_tags (remove_blocks ''style'' (remove_blocks ''script'' html))))"
    by (simp add: strip_html_def Let_def)
  from s have "rec_text (process_one_html now nm html) = t"
    and "statistics (process_one_html now nm html) = text_statistics t"
    by (simp_all add: process_one_html_def)
  then show ?thesis
    using paragraph_count_ge_1 [of t] paragraph_count_collapsed [OF t] by simp
qed

theorem C9_paragraph_witness:
  "rec_text (process_one_html ''t'' ''a.html'' ''<p>Hello   world.</p>  <p>Again.</p>'') = ''Hello world. Again.''
   \<and> rec_text (process_one_html ''t'' ''a.html'' ''<p>Hello   world.</p>  <p>Again.</p>'') \<noteq> []
   \<and> paragraph_count (statistics (process_one_html ''t'' ''a.html'' ''<p>Hello   world.</p>  <p>Again.</p>'')) = 1"
proof -
  have t: "rec_text (process_one_html ''t'' ''a.html'' ''<p>Hello   world.</p>  <p>Again.</p>'') = ''Hello world. Again.''"
    by code_simp
  with C9_paragraph_count [of "''t''" "''a.html''" "''<p>Hello   world.</p>  <p>Again.</p>''"] show ?thesis
    by simp
qed

section \<open>The Document Extractor: tags, scripts and styles\<close>















lemma ci_prefix_append_last:
  "ci_prefix p (t @ w) \<Longrightarrow> t \<noteq> [] \<Longrightarrow> ascii_lower (last t) \<notin> set p \<Longrightarrow> ci_prefix p t"
proof (induction p t rule: ci_prefix.induct)
  case (1 s)
  then show ?case by simp
next
  case (2 p ps)
  then show ?case by simp
next
  case (3 p ps c cs)
  show ?case
  proof (cases cs)
    case Nil
    with "3.prems" show ?thesis by auto
  next
    case (Cons d ds)
    with "3.prems" "3.IH" show ?thesis by simp
  qed
qed


lemma starts_nowhere_last:
  "\<not> occurs p u \<Longrightarrow> u \<noteq> [] \<Longrightarrow> ascii_lower (last u) \<notin> set p \<Longrightarrow> starts_nowhere p u w"
proof (induction u)
  case Nil
  then show ?case by simp
next
  case (Cons c u)
  have "\<not> ci_prefix p (c # u @ w)"
  proof
    assume "ci_prefix p (c # u @ w)"
    with Cons.prems(3) ci_prefix_append_last [of p "c # u" w] have "ci_prefix p (c # u)"
      by simp
    with Cons.prems(1) show False by simp
  qed
  moreover have "starts_nowhere p u w"
  proof (cases "u = []")
    case True
    then show ?thesis by simp
  next
    case False
    with Cons show ?thesis by simp
  qed
  ultimately show ?case by simp
qed






lemma ci_prefix_mono: "ci_prefix p t \<Longrightarrow> ci_prefix p (t @ v)"
  by (induction p t rule: ci_prefix.induct) auto


lemma map_lower_last: "map ascii_lower x = cs \<Longrightarrow> cs \<noteq> [] \<Longrightarrow> x \<noteq> [] \<and> ascii_lower (last x) = last cs"
  by (cases x rule: rev_cases) auto











end
